theory Spec2Isabelle
  imports Main "HOL-Library.AList"
begin

section \<open>The signaling server of server.js\<close>

text \<open>
  The server keeps one global \<open>rooms\<close> map (a JavaScript \<open>Map\<close>, which iterates in
  insertion order) from room ids to objects \<open>{ host, viewers }\<close>, and registers four
  handlers on every socket: \<open>join-room\<close>, \<open>signal\<close>, \<open>frame\<close> and \<open>disconnect\<close>.
  Socket ids and room ids are strings. Each handler is modelled as a function from the
  state before to the state after and the list of emit calls it made, in order.
\<close>

subsection \<open>Values sent by clients\<close>

text \<open>
  Event arguments arrive as JSON. \<open>JNum\<close> carries an integer, which is enough here: the
  server never computes with a number, it only tests \<open>data.to\<close> for truthiness.
\<close>

datatype jsval =
    JUndefined
  | JNull
  | JBool bool
  | JNum int
  | JStr string
  | JObj "(string \<times> jsval) list"

type_synonym obj = "(string \<times> jsval) list"

text \<open>Property access \<open>o.k\<close> on an object: \<open>undefined\<close> when the key is absent.\<close>

definition obj_get :: "obj \<Rightarrow> string \<Rightarrow> jsval" where
  "obj_get fs k = (case map_of fs k of None \<Rightarrow> JUndefined | Some v \<Rightarrow> v)"

text \<open>JavaScript truthiness, as used by \<open>if (data.to)\<close>.\<close>

fun truthy :: "jsval \<Rightarrow> bool" where
  "truthy JUndefined = False"
| "truthy JNull = False"
| "truthy (JBool b) = b"
| "truthy (JNum n) = (n \<noteq> 0)"
| "truthy (JStr s) = (s \<noteq> [])"
| "truthy (JObj fs) = True"

subsection \<open>The registry\<close>

type_synonym conn_id = string
type_synonym room_id = string

text \<open>\<open>{ host: null, viewers: [] }\<close>: \<open>host\<close> is \<open>null\<close> or a socket id, \<open>viewers\<close> an array.\<close>

record room =
  host :: "conn_id option"
  viewers :: "conn_id list"

type_synonym registry = "(room_id \<times> room) list"

text \<open>
  \<open>rooms.has\<close>, \<open>rooms.get\<close> and \<open>rooms.set\<close>. Setting a new key appends the entry;
  setting an existing key replaces the value where it stands, which is also what an
  assignment to a field of the object returned by \<open>rooms.get\<close> does.
\<close>

definition rooms_has :: "registry \<Rightarrow> room_id \<Rightarrow> bool" where
  "rooms_has rs k = (map_of rs k \<noteq> None)"

definition rooms_get :: "registry \<Rightarrow> room_id \<Rightarrow> room option" where
  "rooms_get rs k = map_of rs k"

definition rooms_set :: "room_id \<Rightarrow> room \<Rightarrow> registry \<Rightarrow> registry" where
  "rooms_set k v rs = AList.update k v rs"

text \<open>
  \<open>!room.host\<close> and \<open>if (room.host)\<close> test truthiness: \<open>null\<close> and the empty string are
  falsy.
\<close>

definition host_truthy :: "conn_id option \<Rightarrow> bool" where
  "host_truthy h = (case h of None \<Rightarrow> False | Some x \<Rightarrow> x \<noteq> [])"

subsection \<open>Messages and emit calls\<close>

text \<open>
  The objects the server emits, by event name: \<open>joined {role, roomId}\<close>,
  \<open>host-ready\<close>, \<open>viewer-joined {viewerId}\<close>, \<open>signal {from, signal}\<close>, \<open>frame\<close> with
  the object received, and \<open>host-disconnected\<close>.
\<close>

datatype envelope =
    Joined string room_id
  | HostReady
  | ViewerJoined conn_id
  | SignalEnv conn_id jsval
  | FrameEnv obj
  | HostDisconnected

text \<open>
  The three ways the server emits: \<open>socket.emit(..)\<close> on the handler's own socket,
  \<open>io.to(x).emit(..)\<close> and \<open>socket.to(x).emit(..)\<close>.
\<close>

datatype action =
    SocketEmit conn_id envelope
  | IoTo jsval envelope
  | SocketTo conn_id room_id envelope

fun envelope_of :: "action \<Rightarrow> envelope" where
  "envelope_of (SocketEmit sid e) = e"
| "envelope_of (IoTo t e) = e"
| "envelope_of (SocketTo sid r e) = e"

text \<open>The \<open>from\<close> field of an emitted object (\<open>undefined\<close> when it has none).\<close>

fun envelope_from :: "envelope \<Rightarrow> jsval" where
  "envelope_from (SignalEnv sid sig) = JStr sid"
| "envelope_from (FrameEnv d) = obj_get d ''from''"
| "envelope_from e = JUndefined"

subsection \<open>The transport's rooms\<close>

text \<open>
  socket.io keeps its own membership, apart from \<open>rooms\<close>: every connected socket is in
  the room named by its id, \<open>socket.join(r)\<close> adds it to room \<open>r\<close>, and a socket has left
  all its rooms when its \<open>disconnect\<close> listeners run. \<open>io.to(x).emit\<close> reaches every
  socket in room \<open>x\<close> once, \<open>socket.to(x).emit\<close> every socket in room \<open>x\<close> but the
  sender, \<open>socket.emit\<close> the socket itself. The library is not part of the repository;
  this is its documented behaviour. Room names here are strings, so a target that is
  not a string names no room.
\<close>

type_synonym adapter = "(conn_id \<times> string) list"

definition adapter_add :: "conn_id \<Rightarrow> string \<Rightarrow> adapter \<Rightarrow> adapter" where
  "adapter_add sid r ad = (if (sid, r) \<in> set ad then ad else ad @ [(sid, r)])"

definition adapter_del_all :: "conn_id \<Rightarrow> adapter \<Rightarrow> adapter" where
  "adapter_del_all sid ad = filter (\<lambda>p. fst p \<noteq> sid) ad"

definition in_room :: "adapter \<Rightarrow> string \<Rightarrow> conn_id list" where
  "in_room ad r = remdups (map fst (filter (\<lambda>p. snd p = r) ad))"

definition io_to :: "adapter \<Rightarrow> jsval \<Rightarrow> conn_id list" where
  "io_to ad t = (case t of JStr r \<Rightarrow> in_room ad r | _ \<Rightarrow> [])"

fun recipients :: "adapter \<Rightarrow> action \<Rightarrow> conn_id list" where
  "recipients ad (SocketEmit sid e) = [sid]"
| "recipients ad (IoTo t e) = io_to ad t"
| "recipients ad (SocketTo sid r e) = filter (\<lambda>c. c \<noteq> sid) (in_room ad r)"

definition deliver :: "adapter \<Rightarrow> action list \<Rightarrow> (conn_id \<times> envelope) list" where
  "deliver ad acts = concat (map (\<lambda>a. map (\<lambda>c. (c, envelope_of a)) (recipients ad a)) acts)"

subsection \<open>State and handlers\<close>

record state =
  rooms :: registry
  adapter :: adapter

definition init :: state where
  "init = \<lparr>rooms = [], adapter = []\<rparr>"

text \<open>\<open>socket.on('join-room', ({ roomId, role }) => ...)\<close>, lines 20 to 46.\<close>

definition join_room :: "conn_id \<Rightarrow> room_id \<Rightarrow> string \<Rightarrow> state \<Rightarrow> state \<times> action list" where
  "join_room sid roomId role s =
     (let ad = adapter_add sid roomId (adapter s);
          rs = (if \<not> rooms_has (rooms s) roomId
                then rooms_set roomId \<lparr>host = None, viewers = []\<rparr> (rooms s)
                else rooms s)
      in case rooms_get rs roomId of
           None \<Rightarrow> (\<lparr>rooms = rs, adapter = ad\<rparr>, [])
         | Some rm \<Rightarrow>
             if role = ''host'' then
               (\<lparr>rooms = rooms_set roomId (rm\<lparr>host := Some sid\<rparr>) rs, adapter = ad\<rparr>,
                [SocketEmit sid (Joined ''host'' roomId), SocketTo sid roomId HostReady])
             else
               (\<lparr>rooms = rooms_set roomId (rm\<lparr>viewers := viewers rm @ [sid]\<rparr>) rs,
                 adapter = ad\<rparr>,
                SocketEmit sid (Joined ''viewer'' roomId) #
                (case host rm of
                   Some h \<Rightarrow> if host_truthy (host rm) then [IoTo (JStr h) (ViewerJoined sid)] else []
                 | None \<Rightarrow> [])))"

text \<open>\<open>socket.on('signal', ({ roomId, to, signal }) => ...)\<close>, lines 48 to 50.\<close>

definition signal_handler ::
  "conn_id \<Rightarrow> room_id \<Rightarrow> jsval \<Rightarrow> jsval \<Rightarrow> state \<Rightarrow> state \<times> action list" where
  "signal_handler sid roomId to sig s = (s, [IoTo to (SignalEnv sid sig)])"

text \<open>\<open>socket.on('frame', (data) => ...)\<close>, lines 53 to 57.\<close>

definition frame_handler :: "conn_id \<Rightarrow> obj \<Rightarrow> state \<Rightarrow> state \<times> action list" where
  "frame_handler sid data s =
     (if truthy (obj_get data ''to'') then (s, [IoTo (obj_get data ''to'') (FrameEnv data)])
      else (s, []))"

text \<open>
  The body of \<open>rooms.forEach\<close> in the \<open>disconnect\<close> handler, lines 62 to 73, run over the
  entries in order. Each pass touches its own entry only, and \<open>rooms.delete\<close> of the
  entry being visited does not disturb the iteration.
\<close>

fun disconnect_rooms :: "conn_id \<Rightarrow> registry \<Rightarrow> registry \<times> action list" where
  "disconnect_rooms sid [] = ([], [])"
| "disconnect_rooms sid ((roomId, rm) # rest) =
     (let hostLeft = (host rm = Some sid);
          rm1 = (if hostLeft then rm\<lparr>host := None\<rparr> else rm);
          acts = (if hostLeft then [SocketTo sid roomId HostDisconnected] else []);
          rm2 = rm1\<lparr>viewers := filter (\<lambda>i. i \<noteq> sid) (viewers rm1)\<rparr>;
          res = disconnect_rooms sid rest
      in if \<not> host_truthy (host rm2) \<and> length (viewers rm2) = 0
         then (fst res, acts @ snd res)
         else ((roomId, rm2) # fst res, acts @ snd res))"

definition disconnect_handler :: "conn_id \<Rightarrow> state \<Rightarrow> state \<times> action list" where
  "disconnect_handler sid s =
     (let ad = adapter_del_all sid (adapter s);
          res = disconnect_rooms sid (rooms s)
      in (\<lparr>rooms = fst res, adapter = ad\<rparr>, snd res))"

text \<open>
  The events a socket can raise. \<open>Connect\<close> is \<open>io.on('connection')\<close>, which only
  registers the handlers; the transport has put the socket in the room of its own id.
\<close>

datatype event =
    Connect conn_id
  | JoinRoom conn_id room_id string
  | Signal conn_id room_id jsval jsval
  | Frame conn_id obj
  | Disconnect conn_id

fun step :: "event \<Rightarrow> state \<Rightarrow> state \<times> action list" where
  "step (Connect sid) s = (s\<lparr>adapter := adapter_add sid sid (adapter s)\<rparr>, [])"
| "step (JoinRoom sid roomId role) s = join_room sid roomId role s"
| "step (Signal sid roomId to sig) s = signal_handler sid roomId to sig s"
| "step (Frame sid data) s = frame_handler sid data s"
| "step (Disconnect sid) s = disconnect_handler sid s"

text \<open>What each connection receives from one event: the emit calls, resolved against
  the transport's rooms as they stand when the handler runs.\<close>

definition deliveries :: "state \<times> action list \<Rightarrow> (conn_id \<times> envelope) list" where
  "deliveries r = deliver (adapter (fst r)) (snd r)"

fun run :: "event list \<Rightarrow> state \<Rightarrow> state" where
  "run [] s = s"
| "run (e # es) s = run es (fst (step e s))"

subsection \<open>Predicates of the claims\<close>

text \<open>The hosts recorded for a room id, over every entry of the registry with that id.\<close>

definition hosts_of :: "registry \<Rightarrow> room_id \<Rightarrow> conn_id list" where
  "hosts_of rs r =
     concat (map (\<lambda>p. case host (snd p) of None \<Rightarrow> [] | Some h \<Rightarrow> [h])
                 (filter (\<lambda>p. fst p = r) rs))"

definition room_refs :: "room \<Rightarrow> conn_id \<Rightarrow> bool" where
  "room_refs rm c = (host rm = Some c \<or> c \<in> set (viewers rm))"

definition room_ok :: "room \<Rightarrow> bool" where
  "room_ok rm = (distinct (viewers rm) \<and> (case host rm of None \<Rightarrow> True | Some h \<Rightarrow> h \<notin> set (viewers rm)))"

definition room_empty :: "room \<Rightarrow> bool" where
  "room_empty rm = (host rm = None \<and> viewers rm = [])"

text \<open>The join-room events of a trace, as pairs of socket and room.\<close>

fun joins_of :: "event list \<Rightarrow> (conn_id \<times> room_id) list" where
  "joins_of [] = []"
| "joins_of (JoinRoom sid roomId role # es) = (sid, roomId) # joins_of es"
| "joins_of (e # es) = joins_of es"

text \<open>The rooms of the registry a connection is in, as host or viewer.\<close>

definition rooms_of :: "registry \<Rightarrow> conn_id \<Rightarrow> room_id list" where
  "rooms_of rs c = map fst (filter (\<lambda>p. room_refs (snd p) c) rs)"

text \<open>Sender and recipient are both in rooms, and in no room together.\<close>

definition crosstalk :: "registry \<Rightarrow> conn_id \<Rightarrow> conn_id \<Rightarrow> bool" where
  "crosstalk rs a b =
     (rooms_of rs a \<noteq> [] \<and> rooms_of rs b \<noteq> [] \<and> set (rooms_of rs a) \<inter> set (rooms_of rs b) = {})"

subsection \<open>Auxiliary notions for the proofs\<close>

text \<open>
  The room object stored under \<open>roomId\<close> when \<open>join-room\<close> returns, from what
  \<open>rooms.get(roomId)\<close> gave when it was entered.
\<close>

definition room_after_join :: "conn_id \<Rightarrow> string \<Rightarrow> room option \<Rightarrow> room" where
  "room_after_join c role ro =
     (let rm = (case ro of None \<Rightarrow> \<lparr>host = None, viewers = []\<rparr> | Some x \<Rightarrow> x)
      in if role = ''host'' then rm\<lparr>host := Some c\<rparr> else rm\<lparr>viewers := viewers rm @ [c]\<rparr>)"

text \<open>
  Every room is well formed and refers only to connections that have issued a
  \<open>join-room\<close> for it, \<open>J\<close> being the pairs of connection and room joined so far.
\<close>

definition joined_inv :: "(conn_id \<times> room_id) set \<Rightarrow> registry \<Rightarrow> bool" where
  "joined_inv J rs =
     (\<forall>p \<in> set rs. room_ok (snd p) \<and> (\<forall>c. room_refs (snd p) c \<longrightarrow> (c, fst p) \<in> J))"

text \<open>Every \<open>join-room\<close> of the trace comes from a socket whose id is not empty.\<close>

fun join_ids_nonempty :: "event list \<Rightarrow> bool" where
  "join_ids_nonempty [] = True"
| "join_ids_nonempty (JoinRoom sid roomId role # es) = (sid \<noteq> [] \<and> join_ids_nonempty es)"
| "join_ids_nonempty (e # es) = join_ids_nonempty es"

text \<open>A room that the \<open>disconnect\<close> handler does not delete.\<close>

definition room_kept :: "room \<Rightarrow> bool" where
  "room_kept rm = (host_truthy (host rm) \<or> viewers rm \<noteq> [])"

section \<open>Basic facts\<close>

subsection \<open>Lists and transport rooms\<close>

lemma filter_eq_distinct:
  "distinct xs \<Longrightarrow> x \<in> set xs \<Longrightarrow> filter (\<lambda>y. y = x) xs = [x]"
  by (induction xs) (auto simp: filter_empty_conv)

lemma filter_fst_map_pair:
  "filter (\<lambda>d. fst d = x) (map (\<lambda>c. (c, e)) xs) = map (\<lambda>c. (c, e)) (filter (\<lambda>c. c = x) xs)"
  by (induction xs) auto

lemma fst_image_pair: "fst ` (\<lambda>c. (c, e)) ` S = S"
  by force

lemma deliver_single:
  "deliver ad [a] = map (\<lambda>c. (c, envelope_of a)) (recipients ad a)"
  by (simp add: deliver_def)

lemma set_in_room: "set (in_room ad r) = {c. (c, r) \<in> set ad}"
  by (force simp: in_room_def)

lemma distinct_in_room: "distinct (in_room ad r)"
  by (simp add: in_room_def)

lemma adapter_del_all_idem: "adapter_del_all c (adapter_del_all c ad) = adapter_del_all c ad"
  by (simp add: adapter_del_all_def)

subsection \<open>The join handler on the registry\<close>

lemma join_room_rooms:
  "rooms (fst (join_room c r role s)) =
     AList.update r (room_after_join c role (map_of (rooms s) r)) (rooms s)"
  by (cases "map_of (rooms s) r")
     (simp_all add: join_room_def rooms_has_def rooms_get_def rooms_set_def room_after_join_def
        Let_def update_conv' update_last)

lemma update_set_subset: "set (AList.update k v rs) \<subseteq> insert (k, v) (set rs)"
  by (induction rs) auto

lemma room_after_join_nonempty: "\<not> room_empty (room_after_join c role ro)"
  by (simp add: room_after_join_def room_empty_def Let_def)

subsection \<open>The disconnect loop\<close>

lemma disconnect_rooms_unreferenced:
  "p \<in> set (fst (disconnect_rooms c rs)) \<Longrightarrow> \<not> room_refs (snd p) c"
  by (induction rs) (auto simp: room_refs_def Let_def split: if_splits)

lemma disconnect_rooms_kept:
  "p \<in> set (fst (disconnect_rooms c rs)) \<Longrightarrow> host_truthy (host (snd p)) \<or> viewers (snd p) \<noteq> []"
  by (induction rs) (auto simp: Let_def split: if_splits)

lemma disconnect_rooms_nonempty:
  "p \<in> set (fst (disconnect_rooms c rs)) \<Longrightarrow> \<not> room_empty (snd p)"
  by (induction rs) (auto simp: Let_def room_empty_def host_truthy_def split: if_splits)

lemma disconnect_rooms_keys_mem:
  "p \<in> set (fst (disconnect_rooms c rs)) \<Longrightarrow> fst p \<in> fst ` set rs"
  by (induction rs) (auto simp: Let_def split: if_splits)

lemma disconnect_rooms_keys_subset:
  "fst ` set (fst (disconnect_rooms c rs)) \<subseteq> fst ` set rs"
  using disconnect_rooms_keys_mem by blast

text \<open>A registry that no longer mentions \<open>c\<close> and holds no deletable room is left as it is.\<close>

lemma disconnect_rooms_fixed:
  "(\<And>p. p \<in> set rs \<Longrightarrow>
      \<not> room_refs (snd p) c \<and> (host_truthy (host (snd p)) \<or> viewers (snd p) \<noteq> []))
   \<Longrightarrow> disconnect_rooms c rs = (rs, [])"
proof (induction rs)
  case Nil
  then show ?case by simp
next
  case (Cons q rs)
  obtain k rm where q: "q = (k, rm)" by (cases q)
  have h: "host rm \<noteq> Some c" and v: "c \<notin> set (viewers rm)"
    and e: "host_truthy (host rm) \<or> viewers rm \<noteq> []"
    using Cons.prems [of q] by (auto simp: q room_refs_def)
  have f: "filter (\<lambda>i. i \<noteq> c) (viewers rm) = viewers rm"
    using v by (auto simp: filter_id_conv)
  have r: "disconnect_rooms c rs = (rs, [])"
    using Cons.IH Cons.prems by simp
  show ?case using h e by (auto simp: q Let_def f r)
qed

text \<open>Every entry that survives comes from an entry of the same key.\<close>

lemma disconnect_rooms_origin:
  "p \<in> set (fst (disconnect_rooms c rs)) \<Longrightarrow>
   \<exists>rm. (fst p, rm) \<in> set rs \<and> viewers (snd p) = filter (\<lambda>i. i \<noteq> c) (viewers rm)
        \<and> (host (snd p) = host rm \<or> host (snd p) = None)"
proof (induction rs)
  case Nil
  then show ?case by simp
next
  case (Cons q rs)
  obtain k rm where q: "q = (k, rm)" by (cases q)
  from Cons.prems have "p \<in> set (fst (disconnect_rooms c rs)) \<or>
      p = (k, (if host rm = Some c then rm\<lparr>host := None\<rparr> else rm)
               \<lparr>viewers := filter (\<lambda>i. i \<noteq> c) (viewers rm)\<rparr>)"
    by (auto simp: q Let_def split: if_splits)
  then show ?case
  proof
    assume "p \<in> set (fst (disconnect_rooms c rs))"
    then show ?thesis using Cons.IH by auto
  next
    assume "p = (k, (if host rm = Some c then rm\<lparr>host := None\<rparr> else rm)
               \<lparr>viewers := filter (\<lambda>i. i \<noteq> c) (viewers rm)\<rparr>)"
    then show ?thesis by (auto simp: q intro!: exI [of _ rm])
  qed
qed

subsection \<open>Room ids stay unique\<close>

lemma disconnect_rooms_distinct:
  "distinct (map fst rs) \<Longrightarrow> distinct (map fst (fst (disconnect_rooms c rs)))"
proof (induction rs)
  case Nil
  then show ?case by simp
next
  case (Cons q rs)
  obtain k rm where q: "q = (k, rm)" by (cases q)
  have "k \<notin> fst ` set (fst (disconnect_rooms c rs))"
    using Cons.prems disconnect_rooms_keys_subset [of c rs] by (auto simp: q)
  then show ?case using Cons by (simp add: q Let_def)
qed

lemma step_distinct_keys:
  "distinct (map fst (rooms s)) \<Longrightarrow> distinct (map fst (rooms (fst (step e s))))"
  by (cases e)
     (simp_all add: join_room_rooms distinct_update signal_handler_def frame_handler_def
        disconnect_handler_def Let_def disconnect_rooms_distinct)

lemma run_distinct_keys:
  "distinct (map fst (rooms s)) \<Longrightarrow> distinct (map fst (rooms (run es s)))"
  by (induction es arbitrary: s) (simp_all add: step_distinct_keys)

lemma init_distinct_keys: "distinct (map fst (rooms (run es init)))"
  by (rule run_distinct_keys) (simp add: init_def)

lemma filter_key_empty: "r \<notin> fst ` set rs \<Longrightarrow> filter (\<lambda>p. fst p = r) rs = []"
  by (auto simp: filter_empty_conv)

lemma filter_key_le_one:
  "distinct (map fst rs) \<Longrightarrow> length (filter (\<lambda>p. fst p = r) rs) \<le> Suc 0"
proof (induction rs)
  case Nil
  then show ?case by simp
next
  case (Cons q rs)
  show ?case
  proof (cases "fst q = r")
    case True
    then have "r \<notin> fst ` set rs" using Cons.prems by auto
    then show ?thesis using True by (simp add: filter_key_empty)
  next
    case False
    then show ?thesis using Cons by simp
  qed
qed

lemma filter_key_update:
  "distinct (map fst rs) \<Longrightarrow> filter (\<lambda>p. fst p = r) (AList.update r v rs) = [(r, v)]"
proof (induction rs)
  case Nil
  then show ?case by simp
next
  case (Cons q rs)
  show ?case
  proof (cases "fst q = r")
    case True
    then have "r \<notin> fst ` set rs" using Cons.prems by auto
    then show ?thesis using True by (simp add: filter_key_empty)
  next
    case False
    then show ?thesis using Cons by simp
  qed
qed

lemma hosts_of_le_filter: "length (hosts_of rs r) \<le> length (filter (\<lambda>p. fst p = r) rs)"
  unfolding hosts_of_def by (induction rs) (auto split: option.splits)

subsection \<open>Three sample traces\<close>

lemma run_two_rooms:
  "run [Connect ''A'', Connect ''B'', JoinRoom ''A'' ''r1'' ''viewer'',
        JoinRoom ''B'' ''r2'' ''host''] init
   = \<lparr>rooms = [(''r1'', \<lparr>host = None, viewers = [''A'']\<rparr>),
               (''r2'', \<lparr>host = Some ''B'', viewers = []\<rparr>)],
      adapter = [(''A'', ''A''), (''B'', ''B''), (''A'', ''r1''), (''B'', ''r2'')]\<rparr>"
  by (simp add: init_def adapter_add_def join_room_def rooms_has_def rooms_set_def rooms_get_def)

lemma run_host_viewer:
  "run [Connect ''H'', Connect ''V'', JoinRoom ''H'' ''r1'' ''host'',
        JoinRoom ''V'' ''r1'' ''viewer''] init
   = \<lparr>rooms = [(''r1'', \<lparr>host = Some ''H'', viewers = [''V'']\<rparr>)],
      adapter = [(''H'', ''H''), (''V'', ''V''), (''H'', ''r1''), (''V'', ''r1'')]\<rparr>"
  by (simp add: init_def adapter_add_def join_room_def rooms_has_def rooms_set_def rooms_get_def)

lemma run_host_left:
  "run [Connect ''H'', Connect ''V'', JoinRoom ''H'' ''r1'' ''host'',
        JoinRoom ''V'' ''r1'' ''viewer'', Disconnect ''H''] init
   = \<lparr>rooms = [(''r1'', \<lparr>host = None, viewers = [''V'']\<rparr>)],
      adapter = [(''V'', ''V''), (''V'', ''r1'')]\<rparr>"
  by (simp add: init_def adapter_add_def join_room_def rooms_has_def rooms_set_def rooms_get_def
       disconnect_handler_def adapter_del_all_def host_truthy_def Let_def)

section \<open>The claims\<close>

subsection \<open>C1: one host per room\<close>

text \<open>
  C1. After any sequence of events a room id has at most one host recorded, and a
  \<open>join-room\<close> with role \<open>host\<close> leaves the joining connection as the only host of the
  room, whoever was host before.
\<close>

theorem at_most_one_host:
  "length (hosts_of (rooms (run es init)) r) \<le> 1
   \<and> hosts_of (rooms (fst (step (JoinRoom c r ''host'') (run es init)))) r = [c]"
proof
  have "length (filter (\<lambda>p. fst p = r) (rooms (run es init))) \<le> Suc 0"
    using init_distinct_keys by (rule filter_key_le_one)
  then show "length (hosts_of (rooms (run es init)) r) \<le> 1"
    using hosts_of_le_filter [of "rooms (run es init)" r] by simp
next
  have "filter (\<lambda>p. fst p = r)
          (AList.update r (room_after_join c ''host'' (map_of (rooms (run es init)) r))
             (rooms (run es init)))
        = [(r, room_after_join c ''host'' (map_of (rooms (run es init)) r))]"
    using init_distinct_keys by (rule filter_key_update)
  then show "hosts_of (rooms (fst (step (JoinRoom c r ''host'') (run es init)))) r = [c]"
    by (simp add: join_room_rooms hosts_of_def room_after_join_def Let_def)
qed

theorem at_most_one_host_witness:
  "hosts_of (rooms (run [Connect ''A'', JoinRoom ''A'' ''r1'' ''host''] init)) ''r1'' = [''A''] \<and>
   hosts_of (rooms (fst (step (JoinRoom ''B'' ''r1'' ''host'')
       (run [Connect ''A'', JoinRoom ''A'' ''r1'' ''host''] init)))) ''r1'' = [''B'']"
  using at_most_one_host [of "[Connect ''A'', JoinRoom ''A'' ''r1'' ''host'']" "''r1''" "''B''"]
  by (simp add: init_def adapter_add_def join_room_def rooms_has_def rooms_set_def rooms_get_def
        hosts_of_def)

subsection \<open>C2: disconnect removes every reference\<close>

text \<open>
  C2. From any state, once the \<open>disconnect\<close> of a connection has been processed, no
  room of the registry has it as host or among its viewers.
\<close>

theorem disconnect_removes_all_references:
  "\<forall>p \<in> set (rooms (fst (step (Disconnect c) s))). \<not> room_refs (snd p) c"
  by (simp add: disconnect_handler_def Let_def disconnect_rooms_unreferenced)

theorem disconnect_removes_all_references_witness:
  "rooms (fst (step (Disconnect ''V'')
      (run [Connect ''H'', Connect ''V'', JoinRoom ''H'' ''r1'' ''host'',
            JoinRoom ''V'' ''r1'' ''viewer'', JoinRoom ''V'' ''r2'' ''viewer''] init)))
     = [(''r1'', \<lparr>host = Some ''H'', viewers = []\<rparr>)]
   \<and> \<not> room_refs \<lparr>host = Some ''H'', viewers = []\<rparr> ''V''"
proof -
  have r: "rooms (fst (step (Disconnect ''V'')
      (run [Connect ''H'', Connect ''V'', JoinRoom ''H'' ''r1'' ''host'',
            JoinRoom ''V'' ''r1'' ''viewer'', JoinRoom ''V'' ''r2'' ''viewer''] init)))
     = [(''r1'', \<lparr>host = Some ''H'', viewers = []\<rparr>)]"
    by (simp add: init_def adapter_add_def join_room_def rooms_has_def rooms_set_def rooms_get_def
          disconnect_handler_def host_truthy_def Let_def)
  show ?thesis
    using r disconnect_removes_all_references [of "''V''"
        "run [Connect ''H'', Connect ''V'', JoinRoom ''H'' ''r1'' ''host'',
              JoinRoom ''V'' ''r1'' ''viewer'', JoinRoom ''V'' ''r2'' ''viewer''] init"]
    by simp
qed

subsection \<open>C3: host and viewers of a room\<close>

text \<open>
  C3, as the code has it. The handler of \<open>join-room\<close> never looks at what the room
  already holds, so the property needs the trace to join each room at most once per
  connection: then, in every state reached, no room has its host among its viewers
  and no viewer twice.
\<close>

lemma room_after_join_ok:
  assumes "joined_inv J rs" and "(c, r) \<notin> J"
  shows "room_ok (room_after_join c role (map_of rs r))"
    and "room_refs (room_after_join c role (map_of rs r)) d \<Longrightarrow> (d, r) \<in> insert (c, r) J"
proof -
  show "room_ok (room_after_join c role (map_of rs r))"
  proof (cases "map_of rs r")
    case None
    then show ?thesis by (simp add: room_after_join_def room_ok_def Let_def)
  next
    case (Some rm)
    then have m: "(r, rm) \<in> set rs" by (rule map_of_SomeD)
    then have ok: "room_ok rm" and nr: "\<not> room_refs rm c"
      using assms by (auto simp: joined_inv_def)
    then show ?thesis
      by (auto simp: Some room_after_join_def room_ok_def room_refs_def Let_def
            split: option.splits)
  qed
next
  assume a: "room_refs (room_after_join c role (map_of rs r)) d"
  show "(d, r) \<in> insert (c, r) J"
  proof (cases "map_of rs r")
    case None
    then show ?thesis using a
      by (auto simp: room_after_join_def room_refs_def Let_def split: if_splits)
  next
    case (Some rm)
    then have m: "(r, rm) \<in> set rs" by (rule map_of_SomeD)
    then have "\<And>x. room_refs rm x \<Longrightarrow> (x, r) \<in> J"
      using assms by (auto simp: joined_inv_def)
    then show ?thesis using a
      by (auto simp: Some room_after_join_def room_refs_def Let_def split: if_splits)
  qed
qed

lemma join_room_inv:
  assumes "joined_inv J (rooms s)" and "(c, r) \<notin> J"
  shows "joined_inv (insert (c, r) J) (rooms (fst (join_room c r role s)))"
  unfolding joined_inv_def
proof
  fix p
  assume "p \<in> set (rooms (fst (join_room c r role s)))"
  then have "p = (r, room_after_join c role (map_of (rooms s) r)) \<or> p \<in> set (rooms s)"
    using update_set_subset [of r "room_after_join c role (map_of (rooms s) r)" "rooms s"]
    by (auto simp: join_room_rooms)
  then show "room_ok (snd p) \<and> (\<forall>d. room_refs (snd p) d \<longrightarrow> (d, fst p) \<in> insert (c, r) J)"
  proof
    assume "p = (r, room_after_join c role (map_of (rooms s) r))"
    then show ?thesis using room_after_join_ok [OF assms] by simp
  next
    assume "p \<in> set (rooms s)"
    then show ?thesis using assms(1) by (auto simp: joined_inv_def)
  qed
qed

lemma disconnect_rooms_inv:
  assumes "joined_inv J rs"
  shows "joined_inv J (fst (disconnect_rooms c rs))"
  unfolding joined_inv_def
proof
  fix p
  assume "p \<in> set (fst (disconnect_rooms c rs))"
  then obtain rm where m: "(fst p, rm) \<in> set rs"
    and v: "viewers (snd p) = filter (\<lambda>i. i \<noteq> c) (viewers rm)"
    and h: "host (snd p) = host rm \<or> host (snd p) = None"
    using disconnect_rooms_origin by blast
  have ok: "room_ok rm" and sub: "\<And>d. room_refs rm d \<Longrightarrow> (d, fst p) \<in> J"
    using assms m by (auto simp: joined_inv_def)
  have "room_ok (snd p)"
    using ok h v by (auto simp: room_ok_def split: option.splits)
  moreover have "\<forall>d. room_refs (snd p) d \<longrightarrow> (d, fst p) \<in> J"
    using sub h v by (auto simp: room_refs_def)
  ultimately show "room_ok (snd p) \<and> (\<forall>d. room_refs (snd p) d \<longrightarrow> (d, fst p) \<in> J)" by simp
qed

lemma run_joined_inv:
  "joined_inv J (rooms s) \<Longrightarrow> distinct (joins_of es) \<Longrightarrow> set (joins_of es) \<inter> J = {}
   \<Longrightarrow> joined_inv (J \<union> set (joins_of es)) (rooms (run es s))"
proof (induction es arbitrary: s J)
  case Nil
  then show ?case by simp
next
  case (Cons e es)
  show ?case
  proof (cases e)
    case (JoinRoom c r role)
    have n: "(c, r) \<notin> J" using Cons.prems(3) by (simp add: JoinRoom)
    have i: "joined_inv (insert (c, r) J) (rooms (fst (step e s)))"
      using join_room_inv [OF Cons.prems(1) n] by (simp add: JoinRoom)
    have d: "distinct (joins_of es)" and f: "set (joins_of es) \<inter> insert (c, r) J = {}"
      using Cons.prems(2,3) by (auto simp: JoinRoom)
    have "joined_inv (insert (c, r) J \<union> set (joins_of es)) (rooms (run es (fst (step e s))))"
      using Cons.IH [OF i d f] .
    then show ?thesis by (simp add: JoinRoom)
  next
    case (Disconnect c)
    have i: "joined_inv J (rooms (fst (step e s)))"
      using disconnect_rooms_inv [OF Cons.prems(1)]
      by (simp add: Disconnect disconnect_handler_def Let_def)
    show ?thesis using Cons.IH [OF i] Cons.prems(2,3) by (simp add: Disconnect)
  next
    case (Connect c)
    have i: "joined_inv J (rooms (fst (step e s)))" using Cons.prems(1) by (simp add: Connect)
    show ?thesis using Cons.IH [OF i] Cons.prems(2,3) by (simp add: Connect)
  next
    case (Signal c r t sig)
    have i: "joined_inv J (rooms (fst (step e s)))"
      using Cons.prems(1) by (simp add: Signal signal_handler_def)
    show ?thesis using Cons.IH [OF i] Cons.prems(2,3) by (simp add: Signal)
  next
    case (Frame c d)
    have i: "joined_inv J (rooms (fst (step e s)))"
      using Cons.prems(1) by (simp add: Frame frame_handler_def)
    show ?thesis using Cons.IH [OF i] Cons.prems(2,3) by (simp add: Frame)
  qed
qed

text \<open>
  C3 (amended). In every state reached by a trace in which no connection issues
  \<open>join-room\<close> for the same room twice, no room has its host among its viewers and no
  room lists a viewer twice.
\<close>

theorem join_once_rooms_ok:
  assumes "distinct (joins_of es)"
  shows "\<forall>p \<in> set (rooms (run es init)). room_ok (snd p)"
proof -
  have "joined_inv {} (rooms init)" by (simp add: joined_inv_def init_def)
  then have "joined_inv ({} \<union> set (joins_of es)) (rooms (run es init))"
    using assms by (rule run_joined_inv) simp
  then show ?thesis by (simp add: joined_inv_def)
qed

theorem join_once_rooms_ok_witness:
  "distinct (joins_of [Connect ''H'', JoinRoom ''H'' ''r1'' ''host'', Connect ''V'',
                       JoinRoom ''V'' ''r1'' ''viewer''])
   \<and> rooms (run [Connect ''H'', JoinRoom ''H'' ''r1'' ''host'', Connect ''V'',
                 JoinRoom ''V'' ''r1'' ''viewer''] init)
       = [(''r1'', \<lparr>host = Some ''H'', viewers = [''V'']\<rparr>)]
   \<and> room_ok \<lparr>host = Some ''H'', viewers = [''V'']\<rparr>"
proof -
  have d: "distinct (joins_of [Connect ''H'', JoinRoom ''H'' ''r1'' ''host'', Connect ''V'',
                               JoinRoom ''V'' ''r1'' ''viewer''])"
    by simp
  have r: "rooms (run [Connect ''H'', JoinRoom ''H'' ''r1'' ''host'', Connect ''V'',
                       JoinRoom ''V'' ''r1'' ''viewer''] init)
       = [(''r1'', \<lparr>host = Some ''H'', viewers = [''V'']\<rparr>)]"
    by (simp add: init_def adapter_add_def join_room_def rooms_has_def rooms_set_def rooms_get_def)
  show ?thesis using d r join_once_rooms_ok [OF d] by simp
qed

text \<open>
  C3 as stated fails: a connection that joins a room as host and then twice as viewer
  is the room's host and is listed twice among its viewers.
\<close>

theorem host_and_viewer_counterexample:
  "rooms (run [Connect ''A'', JoinRoom ''A'' ''r1'' ''host'', JoinRoom ''A'' ''r1'' ''viewer'',
               JoinRoom ''A'' ''r1'' ''viewer''] init)
     = [(''r1'', \<lparr>host = Some ''A'', viewers = [''A'', ''A'']\<rparr>)]
   \<and> \<not> room_ok \<lparr>host = Some ''A'', viewers = [''A'', ''A'']\<rparr>"
  by (simp add: init_def adapter_add_def join_room_def rooms_has_def rooms_set_def rooms_get_def
        room_ok_def)

subsection \<open>C4: joining as viewer again\<close>

text \<open>
  C4 (amended). A \<open>join-room\<close> with a role other than \<open>host\<close> on a room that exists
  appends the connection id to the room's viewers, whether or not it is already there;
  the host is untouched.
\<close>

theorem viewer_join_appends:
  assumes "map_of (rooms s) r = Some rm" and "role \<noteq> ''host''"
  shows "map_of (rooms (fst (step (JoinRoom c r role) s))) r
         = Some (rm\<lparr>viewers := viewers rm @ [c]\<rparr>)"
  using assms by (simp add: join_room_rooms update_conv' room_after_join_def)

theorem viewer_join_appends_witness:
  "map_of (rooms (run [Connect ''V'', JoinRoom ''V'' ''r1'' ''viewer''] init)) ''r1''
      = Some \<lparr>host = None, viewers = [''V'']\<rparr>
   \<and> map_of (rooms (fst (step (JoinRoom ''V'' ''r1'' ''viewer'')
        (run [Connect ''V'', JoinRoom ''V'' ''r1'' ''viewer''] init)))) ''r1''
      = Some \<lparr>host = None, viewers = [''V'', ''V'']\<rparr>"
proof -
  have m: "map_of (rooms (run [Connect ''V'', JoinRoom ''V'' ''r1'' ''viewer''] init)) ''r1''
      = Some \<lparr>host = None, viewers = [''V'']\<rparr>"
    by (simp add: init_def adapter_add_def join_room_def rooms_has_def rooms_set_def rooms_get_def)
  have n: "''viewer'' \<noteq> ''host''" by simp
  show ?thesis using m viewer_join_appends [OF m n, of "''V''"] by simp
qed

text \<open>
  C4 as stated fails: after a second viewer join of the same connection the viewers
  of the room are no longer what they were.
\<close>

theorem viewer_join_twice_counterexample:
  "map_of (rooms (run [Connect ''V'', JoinRoom ''V'' ''r1'' ''viewer''] init)) ''r1''
      = Some \<lparr>host = None, viewers = [''V'']\<rparr>
   \<and> map_of (rooms (run [Connect ''V'', JoinRoom ''V'' ''r1'' ''viewer'',
                         JoinRoom ''V'' ''r1'' ''viewer''] init)) ''r1''
      = Some \<lparr>host = None, viewers = [''V'', ''V'']\<rparr>
   \<and> [''V'', ''V''] \<noteq> [''V'']"
  by (simp add: init_def adapter_add_def join_room_def rooms_has_def rooms_set_def rooms_get_def)

subsection \<open>C5: no empty room stays\<close>

lemma step_no_empty:
  assumes "\<forall>p \<in> set (rooms s). \<not> room_empty (snd p)"
  shows "\<forall>p \<in> set (rooms (fst (step e s))). \<not> room_empty (snd p)"
proof (cases e)
  case (JoinRoom c r role)
  show ?thesis
    using assms update_set_subset [of r "room_after_join c role (map_of (rooms s) r)" "rooms s"]
      room_after_join_nonempty [of c role "map_of (rooms s) r"]
    by (auto simp: JoinRoom join_room_rooms)
next
  case (Disconnect c)
  show ?thesis
    by (simp add: Disconnect disconnect_handler_def Let_def disconnect_rooms_nonempty)
qed (use assms in \<open>simp_all add: signal_handler_def frame_handler_def\<close>)

lemma run_no_empty:
  "\<forall>p \<in> set (rooms s). \<not> room_empty (snd p) \<Longrightarrow>
   \<forall>p \<in> set (rooms (run es s)). \<not> room_empty (snd p)"
proof (induction es arbitrary: s)
  case Nil
  then show ?case by simp
next
  case (Cons e es)
  have "\<forall>p \<in> set (rooms (fst (step e s))). \<not> room_empty (snd p)"
    using Cons.prems by (rule step_no_empty)
  then show ?case using Cons.IH by simp
qed

lemma disconnect_rooms_sole_viewer:
  "distinct (map fst rs) \<Longrightarrow> map_of rs r = Some \<lparr>host = None, viewers = [c]\<rparr>
   \<Longrightarrow> r \<notin> fst ` set (fst (disconnect_rooms c rs))"
proof (induction rs)
  case Nil
  then show ?case by simp
next
  case (Cons q rs)
  obtain k rm where q: "q = (k, rm)" by (cases q)
  show ?case
  proof (cases "k = r")
    case True
    then have rm: "rm = \<lparr>host = None, viewers = [c]\<rparr>" using Cons.prems by (simp add: q)
    have "r \<notin> fst ` set rs" using Cons.prems True by (auto simp: q)
    then have "r \<notin> fst ` set (fst (disconnect_rooms c rs))"
      using disconnect_rooms_keys_subset [of c rs] by auto
    then show ?thesis by (simp add: q rm Let_def host_truthy_def)
  next
    case False
    then have "r \<notin> fst ` set (fst (disconnect_rooms c rs))"
      using Cons by (simp add: q)
    then show ?thesis using False by (simp add: q Let_def)
  qed
qed

text \<open>
  C5. In every state reached from the empty registry by any sequence of events, no
  room has \<open>host = null\<close> and no viewers; and when the only viewer of a room without
  host disconnects, the room id is gone from the registry.
\<close>

theorem no_empty_room_persists:
  "(\<forall>p \<in> set (rooms (run es init)). \<not> room_empty (snd p))
   \<and> (map_of (rooms (run es init)) r = Some \<lparr>host = None, viewers = [c]\<rparr>
      \<longrightarrow> r \<notin> fst ` set (rooms (fst (step (Disconnect c) (run es init)))))"
proof
  show "\<forall>p \<in> set (rooms (run es init)). \<not> room_empty (snd p)"
    by (rule run_no_empty) (simp add: init_def)
next
  show "map_of (rooms (run es init)) r = Some \<lparr>host = None, viewers = [c]\<rparr>
      \<longrightarrow> r \<notin> fst ` set (rooms (fst (step (Disconnect c) (run es init))))"
    using disconnect_rooms_sole_viewer [OF init_distinct_keys, of es r c]
    by (simp add: disconnect_handler_def Let_def)
qed

theorem no_empty_room_persists_witness:
  "map_of (rooms (run [Connect ''V'', JoinRoom ''V'' ''r1'' ''viewer''] init)) ''r1''
     = Some \<lparr>host = None, viewers = [''V'']\<rparr>
   \<and> ''r1'' \<notin> fst ` set (rooms (fst (step (Disconnect ''V'')
        (run [Connect ''V'', JoinRoom ''V'' ''r1'' ''viewer''] init))))"
proof -
  have m: "map_of (rooms (run [Connect ''V'', JoinRoom ''V'' ''r1'' ''viewer''] init)) ''r1''
     = Some \<lparr>host = None, viewers = [''V'']\<rparr>"
    by (simp add: init_def adapter_add_def join_room_def rooms_has_def rooms_set_def rooms_get_def)
  show ?thesis
    using m no_empty_room_persists [of "[Connect ''V'', JoinRoom ''V'' ''r1'' ''viewer'']"
        "''r1''" "''V''"]
    by blast
qed

subsection \<open>C6: who receives a relayed message\<close>

text \<open>
  C6 (amended). A \<open>signal\<close> or \<open>frame\<close> event whose \<open>to\<close> is the non-empty string \<open>x\<close>
  is delivered to exactly the connections in the transport's room \<open>x\<close> (the connection
  with id \<open>x\<close>, and any that joined a room named \<open>x\<close>), and leaves the registry as it
  was: the rooms of sender and recipient play no part.
\<close>

theorem relay_addressed_by_to:
  assumes "obj_get d ''to'' = JStr x" and "x \<noteq> []"
  shows "fst ` set (deliveries (step (Signal a r (JStr x) sig) s)) = {c. (c, x) \<in> set (adapter s)}
       \<and> fst ` set (deliveries (step (Frame a d) s)) = {c. (c, x) \<in> set (adapter s)}
       \<and> rooms (fst (step (Signal a r (JStr x) sig) s)) = rooms s
       \<and> rooms (fst (step (Frame a d) s)) = rooms s"
  using assms
  by (simp add: signal_handler_def frame_handler_def deliveries_def deliver_single io_to_def
        fst_image_pair set_in_room)

theorem relay_addressed_by_to_witness:
  "fst ` set (deliveries (step (Signal ''A'' ''r1'' (JStr ''B'') (JStr ''offer''))
      (run [Connect ''A'', Connect ''B'', JoinRoom ''A'' ''r1'' ''viewer'',
            JoinRoom ''B'' ''r2'' ''host''] init))) = {''B''}
   \<and> fst ` set (deliveries (step (Frame ''A'' [(''to'', JStr ''B''), (''data'', JStr ''/9j/'')])
      (run [Connect ''A'', Connect ''B'', JoinRoom ''A'' ''r1'' ''viewer'',
            JoinRoom ''B'' ''r2'' ''host''] init))) = {''B''}"
proof -
  have g: "obj_get [(''to'', JStr ''B''), (''data'', JStr ''/9j/'')] ''to'' = JStr ''B''"
    by (simp add: obj_get_def)
  have n: "''B'' \<noteq> []" by simp
  have e: "{c. (c, ''B'') \<in> set (adapter (run [Connect ''A'', Connect ''B'',
             JoinRoom ''A'' ''r1'' ''viewer'', JoinRoom ''B'' ''r2'' ''host''] init))} = {''B''}"
    by (simp only: run_two_rooms) auto
  show ?thesis
    using relay_addressed_by_to [OF g n, where a = "''A''" and r = "''r1''"
        and sig = "JStr ''offer''"
        and s = "run [Connect ''A'', Connect ''B'', JoinRoom ''A'' ''r1'' ''viewer'',
                      JoinRoom ''B'' ''r2'' ''host''] init"] e
    by simp
qed

text \<open>
  C6 as stated fails: \<open>A\<close> is in room \<open>r1\<close> only, \<open>B\<close> in room \<open>r2\<close> only, and a
  signal of \<open>A\<close> addressed to \<open>B\<close> is delivered to \<open>B\<close>.
\<close>

theorem crosstalk_counterexample:
  "(''B'', SignalEnv ''A'' (JStr ''offer''))
      \<in> set (deliveries (step (Signal ''A'' ''r1'' (JStr ''B'') (JStr ''offer''))
          (run [Connect ''A'', Connect ''B'', JoinRoom ''A'' ''r1'' ''viewer'',
                JoinRoom ''B'' ''r2'' ''host''] init)))
   \<and> rooms_of (rooms (run [Connect ''A'', Connect ''B'', JoinRoom ''A'' ''r1'' ''viewer'',
                JoinRoom ''B'' ''r2'' ''host''] init)) ''A'' = [''r1'']
   \<and> rooms_of (rooms (run [Connect ''A'', Connect ''B'', JoinRoom ''A'' ''r1'' ''viewer'',
                JoinRoom ''B'' ''r2'' ''host''] init)) ''B'' = [''r2'']
   \<and> crosstalk (rooms (run [Connect ''A'', Connect ''B'', JoinRoom ''A'' ''r1'' ''viewer'',
                JoinRoom ''B'' ''r2'' ''host''] init)) ''A'' ''B''"
  by (simp add: init_def adapter_add_def join_room_def rooms_has_def rooms_set_def rooms_get_def
        signal_handler_def deliveries_def deliver_def io_to_def in_room_def
        rooms_of_def room_refs_def crosstalk_def)

subsection \<open>C7: what a frame carries\<close>

text \<open>
  C7 (amended). A \<open>frame\<close> event whose \<open>to\<close> is the id of a connected socket makes one
  emit call, and that socket receives the frame object exactly as the sender sent it;
  the server adds no field, so its \<open>from\<close> is whatever the sender put there.
\<close>

theorem frame_forwarded_verbatim:
  assumes "obj_get d ''to'' = JStr t" and "t \<noteq> []" and "(t, t) \<in> set (adapter s)"
  shows "step (Frame a d) s = (s, [IoTo (JStr t) (FrameEnv d)])
       \<and> filter (\<lambda>p. fst p = t) (deliveries (step (Frame a d) s)) = [(t, FrameEnv d)]
       \<and> envelope_from (FrameEnv d) = obj_get d ''from''"
proof -
  have m: "t \<in> set (in_room (adapter s) t)" using assms(3) by (simp add: set_in_room)
  have f: "filter (\<lambda>c. c = t) (in_room (adapter s) t) = [t]"
    using distinct_in_room m by (rule filter_eq_distinct)
  show ?thesis
    using assms(1,2)
    by (simp add: frame_handler_def deliveries_def deliver_single io_to_def filter_fst_map_pair f)
qed

theorem frame_forwarded_verbatim_witness:
  "step (Frame ''H'' [(''to'', JStr ''V''), (''data'', JStr ''/9j/'')])
      (run [Connect ''H'', Connect ''V'', JoinRoom ''H'' ''r1'' ''host'',
            JoinRoom ''V'' ''r1'' ''viewer''] init)
   = (run [Connect ''H'', Connect ''V'', JoinRoom ''H'' ''r1'' ''host'',
           JoinRoom ''V'' ''r1'' ''viewer''] init,
      [IoTo (JStr ''V'') (FrameEnv [(''to'', JStr ''V''), (''data'', JStr ''/9j/'')])])"
proof -
  have g: "obj_get [(''to'', JStr ''V''), (''data'', JStr ''/9j/'')] ''to'' = JStr ''V''"
    by (simp add: obj_get_def)
  have n: "''V'' \<noteq> []" by simp
  have c: "(''V'', ''V'') \<in> set (adapter (run [Connect ''H'', Connect ''V'',
             JoinRoom ''H'' ''r1'' ''host'', JoinRoom ''V'' ''r1'' ''viewer''] init))"
    by (simp add: init_def adapter_add_def join_room_def rooms_has_def rooms_set_def rooms_get_def)
  show ?thesis using frame_forwarded_verbatim [OF g n c, of "''H''"] by blast
qed

text \<open>
  C7 as stated fails: the host's frame \<open>{to, data}\<close> reaches the viewer without any
  \<open>from\<close> field.
\<close>

theorem frame_from_counterexample:
  "deliveries (step (Frame ''H'' [(''to'', JStr ''V''), (''data'', JStr ''/9j/'')])
      (run [Connect ''H'', Connect ''V'', JoinRoom ''H'' ''r1'' ''host'',
            JoinRoom ''V'' ''r1'' ''viewer''] init))
     = [(''V'', FrameEnv [(''to'', JStr ''V''), (''data'', JStr ''/9j/'')])]
   \<and> envelope_from (FrameEnv [(''to'', JStr ''V''), (''data'', JStr ''/9j/'')]) = JUndefined
   \<and> envelope_from (FrameEnv [(''to'', JStr ''V''), (''data'', JStr ''/9j/'')]) \<noteq> JStr ''H''"
  by (simp add: init_def adapter_add_def join_room_def rooms_has_def rooms_set_def rooms_get_def
        frame_handler_def deliveries_def deliver_def io_to_def in_room_def obj_get_def)

subsection \<open>C8: a second disconnect\<close>

lemma room_after_join_kept: "c \<noteq> [] \<Longrightarrow> room_kept (room_after_join c role ro)"
  by (simp add: room_after_join_def room_kept_def host_truthy_def Let_def)

lemma step_room_kept:
  assumes "\<forall>p \<in> set (rooms s). room_kept (snd p)" and "join_ids_nonempty [e]"
  shows "\<forall>p \<in> set (rooms (fst (step e s))). room_kept (snd p)"
proof (cases e)
  case (JoinRoom c r role)
  then have "c \<noteq> []" using assms(2) by simp
  then show ?thesis
    using assms(1) update_set_subset [of r "room_after_join c role (map_of (rooms s) r)" "rooms s"]
      room_after_join_kept [of c role "map_of (rooms s) r"]
    by (auto simp: JoinRoom join_room_rooms)
next
  case (Disconnect c)
  show ?thesis
    using disconnect_rooms_kept
    by (simp add: Disconnect disconnect_handler_def Let_def room_kept_def)
qed (use assms in \<open>simp_all add: signal_handler_def frame_handler_def\<close>)

lemma join_ids_nonempty_Cons:
  "join_ids_nonempty (e # es) = (join_ids_nonempty [e] \<and> join_ids_nonempty es)"
  by (cases e) simp_all

lemma run_room_kept:
  "\<forall>p \<in> set (rooms s). room_kept (snd p) \<Longrightarrow> join_ids_nonempty es \<Longrightarrow>
   \<forall>p \<in> set (rooms (run es s)). room_kept (snd p)"
proof (induction es arbitrary: s)
  case Nil
  then show ?case by simp
next
  case (Cons e es)
  have a: "join_ids_nonempty [e]" and b: "join_ids_nonempty es"
    using Cons.prems(2) join_ids_nonempty_Cons [of e es] by simp_all
  have "\<forall>p \<in> set (rooms (fst (step e s))). room_kept (snd p)"
    using Cons.prems(1) a by (rule step_room_kept)
  then show ?case using Cons.IH b by simp
qed

text \<open>
  C8. From any state, processing the \<open>disconnect\<close> of a connection again right after
  it has been processed changes nothing and makes no emit call, so no second
  \<open>host-disconnected\<close>. More generally, in any state reached by a trace whose joining
  sockets have non-empty ids, the \<open>disconnect\<close> of a connection that no room refers to
  leaves the registry as it is and makes no emit call.
\<close>

theorem disconnect_idempotent:
  "step (Disconnect c) (fst (step (Disconnect c) s)) = (fst (step (Disconnect c) s), [])
   \<and> (join_ids_nonempty es \<and> (\<forall>p \<in> set (rooms (run es init)). \<not> room_refs (snd p) c)
      \<longrightarrow> rooms (fst (step (Disconnect c) (run es init))) = rooms (run es init)
          \<and> snd (step (Disconnect c) (run es init)) = [])"
proof
  have "disconnect_rooms c (fst (disconnect_rooms c (rooms s)))
        = (fst (disconnect_rooms c (rooms s)), [])"
    by (rule disconnect_rooms_fixed) (simp add: disconnect_rooms_unreferenced disconnect_rooms_kept)
  then show "step (Disconnect c) (fst (step (Disconnect c) s)) = (fst (step (Disconnect c) s), [])"
    by (simp add: disconnect_handler_def Let_def adapter_del_all_idem)
next
  show "join_ids_nonempty es \<and> (\<forall>p \<in> set (rooms (run es init)). \<not> room_refs (snd p) c)
      \<longrightarrow> rooms (fst (step (Disconnect c) (run es init))) = rooms (run es init)
          \<and> snd (step (Disconnect c) (run es init)) = []"
  proof
    assume a: "join_ids_nonempty es \<and> (\<forall>p \<in> set (rooms (run es init)). \<not> room_refs (snd p) c)"
    have "\<forall>p \<in> set (rooms init). room_kept (snd p)" by (simp add: init_def)
    then have k: "\<forall>p \<in> set (rooms (run es init)). room_kept (snd p)"
      using a run_room_kept [of init es] by blast
    have "disconnect_rooms c (rooms (run es init)) = (rooms (run es init), [])"
      by (rule disconnect_rooms_fixed) (use a k in \<open>simp add: room_kept_def\<close>)
    then show "rooms (fst (step (Disconnect c) (run es init))) = rooms (run es init)
          \<and> snd (step (Disconnect c) (run es init)) = []"
      by (simp add: disconnect_handler_def Let_def)
  qed
qed

theorem disconnect_idempotent_witness:
  "join_ids_nonempty [Connect ''H'', Connect ''V'', JoinRoom ''H'' ''r1'' ''host'',
        JoinRoom ''V'' ''r1'' ''viewer'', Disconnect ''H'']
   \<and> list_all (\<lambda>p. \<not> room_refs (snd p) ''H'')
        (rooms (run [Connect ''H'', Connect ''V'', JoinRoom ''H'' ''r1'' ''host'',
                     JoinRoom ''V'' ''r1'' ''viewer'', Disconnect ''H''] init))
   \<and> rooms (fst (step (Disconnect ''H'')
        (run [Connect ''H'', Connect ''V'', JoinRoom ''H'' ''r1'' ''host'',
              JoinRoom ''V'' ''r1'' ''viewer'', Disconnect ''H''] init)))
      = [(''r1'', \<lparr>host = None, viewers = [''V'']\<rparr>)]
   \<and> snd (step (Disconnect ''H'')
        (run [Connect ''H'', Connect ''V'', JoinRoom ''H'' ''r1'' ''host'',
              JoinRoom ''V'' ''r1'' ''viewer'', Disconnect ''H''] init)) = []"
proof -
  have j: "join_ids_nonempty [Connect ''H'', Connect ''V'', JoinRoom ''H'' ''r1'' ''host'',
        JoinRoom ''V'' ''r1'' ''viewer'', Disconnect ''H'']"
    by simp
  have u: "\<forall>p \<in> set (rooms (run [Connect ''H'', Connect ''V'', JoinRoom ''H'' ''r1'' ''host'',
                     JoinRoom ''V'' ''r1'' ''viewer'', Disconnect ''H''] init)).
             \<not> room_refs (snd p) ''H''"
    by (simp only: run_host_left) (simp add: room_refs_def)
  have r: "rooms (run [Connect ''H'', Connect ''V'', JoinRoom ''H'' ''r1'' ''host'',
              JoinRoom ''V'' ''r1'' ''viewer'', Disconnect ''H''] init)
           = [(''r1'', \<lparr>host = None, viewers = [''V'']\<rparr>)]"
    by (simp only: run_host_left) simp
  have t: "rooms (fst (step (Disconnect ''H'')
        (run [Connect ''H'', Connect ''V'', JoinRoom ''H'' ''r1'' ''host'',
              JoinRoom ''V'' ''r1'' ''viewer'', Disconnect ''H''] init)))
      = rooms (run [Connect ''H'', Connect ''V'', JoinRoom ''H'' ''r1'' ''host'',
              JoinRoom ''V'' ''r1'' ''viewer'', Disconnect ''H''] init)
     \<and> snd (step (Disconnect ''H'')
        (run [Connect ''H'', Connect ''V'', JoinRoom ''H'' ''r1'' ''host'',
              JoinRoom ''V'' ''r1'' ''viewer'', Disconnect ''H''] init)) = []"
    using disconnect_idempotent [of "''H''" init "[Connect ''H'', Connect ''V'',
        JoinRoom ''H'' ''r1'' ''host'', JoinRoom ''V'' ''r1'' ''viewer'', Disconnect ''H'']"] j u
    by blast
  show ?thesis
    using j u t unfolding r by (simp only: list_all_iff)
qed

subsection \<open>C9: a signal reaches its target unchanged\<close>

text \<open>
  C9. For a \<open>signal\<close> event of connection \<open>a\<close> whose \<open>to\<close> is the id of a connected
  socket, the state is unchanged, that socket receives \<open>{from: a, signal}\<close> once, with
  the payload as sent, and nothing else is delivered to anyone.
\<close>

theorem signal_delivered_verbatim:
  assumes "(t, t) \<in> set (adapter s)"
  shows "fst (step (Signal a r (JStr t) sig) s) = s
       \<and> filter (\<lambda>d. fst d = t) (deliveries (step (Signal a r (JStr t) sig) s))
           = [(t, SignalEnv a sig)]
       \<and> snd ` set (deliveries (step (Signal a r (JStr t) sig) s)) = {SignalEnv a sig}"
proof -
  have m: "t \<in> set (in_room (adapter s) t)" using assms by (simp add: set_in_room)
  have d: "deliveries (step (Signal a r (JStr t) sig) s)
           = map (\<lambda>c. (c, SignalEnv a sig)) (in_room (adapter s) t)"
    by (simp add: deliveries_def signal_handler_def deliver_single io_to_def)
  have f: "filter (\<lambda>c. c = t) (in_room (adapter s) t) = [t]"
    using distinct_in_room m by (rule filter_eq_distinct)
  have i: "snd ` set (map (\<lambda>c. (c, SignalEnv a sig)) (in_room (adapter s) t)) = {SignalEnv a sig}"
    using m by force
  show ?thesis
    by (simp only: d filter_fst_map_pair f i) (simp add: signal_handler_def)
qed

theorem signal_delivered_verbatim_witness:
  "filter (\<lambda>d. fst d = ''H'')
     (deliveries (step (Signal ''V'' ''r1'' (JStr ''H'') (JStr ''offer''))
        (run [Connect ''H'', Connect ''V'', JoinRoom ''H'' ''r1'' ''host'',
              JoinRoom ''V'' ''r1'' ''viewer''] init)))
   = [(''H'', SignalEnv ''V'' (JStr ''offer''))]"
proof -
  have c: "(''H'', ''H'') \<in> set (adapter (run [Connect ''H'', Connect ''V'',
             JoinRoom ''H'' ''r1'' ''host'', JoinRoom ''V'' ''r1'' ''viewer''] init))"
    by (simp only: run_host_viewer) simp
  show ?thesis using signal_delivered_verbatim [OF c] by blast
qed

subsection \<open>C10: the signal handler does not look at the sender\<close>

text \<open>
  C10. In any state, whatever the sender has or has not joined, a \<open>signal\<close> event
  leaves the state as it is and makes the one call \<open>io.to(to).emit\<close> with
  \<open>{from: sender, signal}\<close>; who receives it depends on the target's name alone.
\<close>

theorem signal_ignores_sender_state:
  "step (Signal a r t sig) s = (s, [IoTo t (SignalEnv a sig)])
   \<and> deliveries (step (Signal a r t sig) s)
       = map (\<lambda>c. (c, SignalEnv a sig)) (io_to (adapter s) t)"
  by (simp add: signal_handler_def deliveries_def deliver_single)

theorem signal_ignores_sender_state_witness:
  "rooms_of (rooms (run [Connect ''X'', Connect ''H'', JoinRoom ''H'' ''r1'' ''host''] init)) ''X'' = []
   \<and> deliveries (step (Signal ''X'' ''r1'' (JStr ''H'') (JStr ''offer''))
        (run [Connect ''X'', Connect ''H'', JoinRoom ''H'' ''r1'' ''host''] init))
     = [(''H'', SignalEnv ''X'' (JStr ''offer''))]"
proof -
  have s: "run [Connect ''X'', Connect ''H'', JoinRoom ''H'' ''r1'' ''host''] init
     = \<lparr>rooms = [(''r1'', \<lparr>host = Some ''H'', viewers = []\<rparr>)],
        adapter = [(''X'', ''X''), (''H'', ''H''), (''H'', ''r1'')]\<rparr>"
    by (simp add: init_def adapter_add_def join_room_def rooms_has_def rooms_set_def rooms_get_def)
  have i: "io_to [(''X'', ''X''), (''H'', ''H''), (''H'', ''r1'')] (JStr ''H'') = [''H'']"
    by (simp add: io_to_def in_room_def)
  have o: "rooms_of [(''r1'', \<lparr>host = Some ''H'', viewers = []\<rparr>)] ''X'' = []"
    by (simp add: rooms_of_def room_refs_def)
  show ?thesis
    using signal_ignores_sender_state [of "''X''" "''r1''" "JStr ''H''" "JStr ''offer''"
        "run [Connect ''X'', Connect ''H'', JoinRoom ''H'' ''r1'' ''host''] init"]
    by (simp only: s) (simp add: i o signal_handler_def deliveries_def deliver_def)
qed

end
